theory Spec2Isabelle
  imports Main "HOL-Library.Word"
begin

unbundle bit_operations_syntax

section \<open>Data model\<close>

text \<open>
  Go's \<open>uint8\<close>/\<open>byte\<close>, \<open>uint16\<close> and \<open>uint32\<close> are words of that width: shifts
  drop the bits that leave the word, conversions to a narrower type truncate.
\<close>

type_synonym byte = "8 word"
type_synonym uint16 = "16 word"
type_synonym uint32 = "32 word"

text \<open>
  A Go byte slice is a window on an underlying array: \<open>elems\<close> are the \<open>len\<close> elements
  that indexing can reach, \<open>spare\<close> are the elements of the array between \<open>len\<close> and
  \<open>cap\<close>, which a slice expression \<open>s[lo:hi]\<close> can still reach (its upper bound is the
  capacity, not the length).
\<close>

record slice =
  elems :: "byte list"
  spare :: "byte list"

definition len :: "slice \<Rightarrow> nat" where
  "len s = length (elems s)"

definition cap :: "slice \<Rightarrow> nat" where
  "cap s = length (elems s) + length (spare s)"

text \<open>Run-time panics of the Go runtime and the one explicit \<open>panic\<close> of the program.\<close>

datatype panic = IndexOutOfRange | SliceBoundsOutOfRange | CantConvert

text \<open>A Go \<open>error\<close> value is its message; \<open>nil\<close> is \<open>None\<close>.\<close>

type_synonym error = "string option"

text \<open>\<open>s[lo:hi]\<close> on a slice: panics unless \<open>lo \<le> hi \<le> cap s\<close>.\<close>

definition slice_expr :: "slice \<Rightarrow> nat \<Rightarrow> nat \<Rightarrow> panic + byte list" where
  "slice_expr s lo hi =
     (if lo \<le> hi \<and> hi \<le> cap s
      then Inr (take (hi - lo) (drop lo (elems s @ spare s)))
      else Inl SliceBoundsOutOfRange)"

text \<open>\<open>s[i]\<close> on a slice: panics unless \<open>i < len s\<close>.\<close>

definition index_expr :: "slice \<Rightarrow> nat \<Rightarrow> panic + byte" where
  "index_expr s i = (if i < len s then Inr (elems s ! i) else Inl IndexOutOfRange)"

text \<open>
  \<open>binary.BigEndian.Uint16\<close> and \<open>Uint32\<close>; the program only calls them on the result
  of a two-byte (four-byte) slice expression, so their own bounds check cannot fail.
\<close>

definition Uint16 :: "byte list \<Rightarrow> uint16" where
  "Uint16 b = ucast (b ! 1) OR push_bit 8 (ucast (b ! 0))"

definition Uint32 :: "byte list \<Rightarrow> uint32" where
  "Uint32 b = ucast (b ! 3) OR push_bit 8 (ucast (b ! 2))
                OR push_bit 16 (ucast (b ! 1)) OR push_bit 24 (ucast (b ! 0))"

record Header =
  ID :: uint16
  QR :: byte
  OPCODE :: byte
  AA :: byte
  TC :: byte
  RD :: byte
  RA :: byte
  Z :: byte
  RCODE :: byte
  QDCOUNT :: uint16
  ANCOUNT :: uint16
  NSCOUNT :: uint16
  ARCOUNT :: uint16

text \<open>The zero value \<open>Header{}\<close>.\<close>

definition Header_zero :: Header where
  "Header_zero = \<lparr>ID = 0, QR = 0, OPCODE = 0, AA = 0, TC = 0, RD = 0, RA = 0, Z = 0,
     RCODE = 0, QDCOUNT = 0, ANCOUNT = 0, NSCOUNT = 0, ARCOUNT = 0\<rparr>"

section \<open>Header codec\<close>

text \<open>
  \<open>unmarshalHeader\<close>: the field \<open>Z\<close> is assigned twice, the second time from the low
  nibble of byte 3, and \<open>RCODE\<close> is never assigned, so it keeps its zero value.
  All reads are below index 12, inside the length checked first.
\<close>

definition unmarshalHeader :: "slice \<Rightarrow> Header \<times> error" where
  "unmarshalHeader s =
     (if len s < 12
      then (Header_zero, Some ''Invalid header size, need to be at least 12 bytes'')
      else
        let d = elems s;
            header = Header_zero;
            header = header\<lparr>ID := Uint16 (take 2 d)\<rparr>;
            header = header\<lparr>QR := drop_bit 7 (d ! 2)\<rparr>;
            header = header\<lparr>OPCODE := drop_bit 3 (d ! 2) AND 0xF\<rparr>;
            header = header\<lparr>AA := drop_bit 2 (d ! 2) AND 0x1\<rparr>;
            header = header\<lparr>TC := drop_bit 1 (d ! 2) AND 0x1\<rparr>;
            header = header\<lparr>RD := (d ! 2) AND 0x1\<rparr>;
            header = header\<lparr>RA := drop_bit 7 (d ! 3)\<rparr>;
            header = header\<lparr>Z := drop_bit 4 (d ! 3) AND 0x7\<rparr>;
            header = header\<lparr>Z := (d ! 3) AND 0xF\<rparr>;
            header = header\<lparr>QDCOUNT := Uint16 (take 2 (drop 4 d))\<rparr>;
            header = header\<lparr>ANCOUNT := Uint16 (take 2 (drop 6 d))\<rparr>;
            header = header\<lparr>NSCOUNT := Uint16 (take 2 (drop 8 d))\<rparr>;
            header = header\<lparr>ARCOUNT := Uint16 (take 2 (drop 10 d))\<rparr>
        in (header, None))"

text \<open>\<open>Header.marshal\<close>: twelve bytes; \<open>|=\<close> accumulates into bytes 2 and 3.\<close>

definition Header_marshal :: "Header \<Rightarrow> byte list" where
  "Header_marshal d =
     [ ucast (drop_bit 8 (ID d)),
       ucast (ID d AND 0xFF),
       push_bit 7 (QR d) OR push_bit 3 (OPCODE d) OR push_bit 2 (AA d)
         OR push_bit 1 (TC d) OR RD d,
       push_bit 7 (RA d) OR push_bit 4 (Z d) OR RCODE d,
       ucast (drop_bit 8 (QDCOUNT d)),
       ucast (QDCOUNT d AND 0xFF),
       ucast (drop_bit 8 (ANCOUNT d)),
       ucast (ANCOUNT d AND 0xFF),
       ucast (drop_bit 8 (NSCOUNT d)),
       ucast (NSCOUNT d AND 0xFF),
       ucast (drop_bit 8 (ARCOUNT d)),
       ucast (ARCOUNT d AND 0xFF) ]"

text \<open>A slice with no spare capacity, as \<open>make([]byte, n)\<close> returns it.\<close>

definition exact :: "byte list \<Rightarrow> slice" where
  "exact bs = \<lparr>elems = bs, spare = []\<rparr>"

section \<open>Strings and the library functions the program calls\<close>

text \<open>
  A Go string is a sequence of bytes, here a \<open>string\<close> (a list of 8-bit characters).
  \<open>append(response, label...)\<close> copies its bytes, \<open>string(label)\<close> reads bytes back.
\<close>

definition byte_of_char :: "char \<Rightarrow> byte" where
  "byte_of_char c = of_char c"

definition char_of_byte :: "byte \<Rightarrow> char" where
  "char_of_byte b = char_of (unat b)"

text \<open>
  \<open>strings.Split(s, sep)\<close> for a one-byte separator: the substrings between the
  separators, one more than there are separators (so \<open>[""]\<close> for the empty string).
\<close>

fun Split :: "string \<Rightarrow> char \<Rightarrow> string list" where
  "Split [] sep = [[]]"
| "Split (c # cs) sep =
     (if c = sep then [] # Split cs sep
      else (case Split cs sep of [] \<Rightarrow> [[c]] | w # ws \<Rightarrow> (c # w) # ws))"

text \<open>
  \<open>strconv.Atoi\<close> (Go library, 64-bit \<open>int\<close>): an optional sign, then at least one
  decimal digit and nothing else; the value must fit the \<open>int\<close> type. \<open>None\<close> stands for
  a non-nil error.
\<close>

fun digits_value :: "string \<Rightarrow> nat \<Rightarrow> nat option" where
  "digits_value [] n = Some n"
| "digits_value (ch # s) n =
     (if (48::nat) \<le> of_char ch \<and> (of_char ch :: nat) \<le> 57
      then digits_value s (n * 10 + (of_char ch - 48))
      else None)"

definition Atoi :: "string \<Rightarrow> int option" where
  "Atoi s0 =
     (case s0 of
        [] \<Rightarrow> None
      | c # s \<Rightarrow>
          let body = (if c = CHR ''-'' \<or> c = CHR ''+'' then s else s0) in
          if body = [] then None
          else (case digits_value body 0 of
                  None \<Rightarrow> None
                | Some n \<Rightarrow>
                    let v = (if c = CHR ''-'' then - int n else int n) in
                    if - (2 ^ 63) \<le> v \<and> v < 2 ^ 63 then Some v else None))"

text \<open>\<open>strconv.Itoa\<close>: the decimal digits, most significant first, \<open>-\<close> before a negative.\<close>

function digits_of :: "nat \<Rightarrow> string" where
  "digits_of n =
     (if n < 10 then [char_of (48 + n)]
      else digits_of (n div 10) @ [char_of (48 + n mod 10)])"
  by pat_completeness auto
termination
  by (relation "measure (\<lambda>n. n)") auto

declare digits_of.simps [simp del]

definition Itoa :: "int \<Rightarrow> string" where
  "Itoa i = (if i < 0 then CHR ''-'' # digits_of (nat (- i)) else digits_of (nat i))"

section \<open>Question codec\<close>

record Question =
  domainName :: string
  questionType :: uint16
  questionClass :: uint16

text \<open>
  The label loop of \<open>Question.marshal\<close> and \<open>Answer.marshal\<close> (the same statements in
  both): empty labels are skipped, \<open>byte(len(label))\<close> truncates the length to 8 bits,
  there is no check of the length.
\<close>

fun marshalLabels :: "string list \<Rightarrow> byte list \<Rightarrow> byte list" where
  "marshalLabels [] response = response"
| "marshalLabels (label # rest) response =
     (if length label = 0 then marshalLabels rest response
      else marshalLabels rest
             ((response @ [of_nat (length label)]) @ map byte_of_char label))"

definition Question_marshal :: "Question \<Rightarrow> byte list" where
  "Question_marshal question =
     (let response = marshalLabels (Split (Question.domainName question) CHR ''.'') [];
          response = response @ [0];
          response = response @ [ucast (drop_bit 8 (questionType question))];
          response = response @ [ucast (questionType question AND 0xFF)];
          response = response @ [ucast (drop_bit 8 (questionClass question))];
          response = response @ [ucast (questionClass question AND 0xFF)]
      in response)"

text \<open>
  The name loop of \<open>unmarshalQuestion\<close> and \<open>unmarshalAnswer\<close> (the same statements in
  both), from \<open>index\<close> with the name read so far; it returns the index of the byte that
  stopped it and the name. The label is taken with a slice expression, which panics
  beyond the capacity and reads the underlying array between length and capacity.
\<close>

function nameLoop :: "slice \<Rightarrow> nat \<Rightarrow> string \<Rightarrow> panic + (nat \<times> string)" where
  "nameLoop data index name =
     (if len data > index \<and> elems data ! index \<noteq> 0
      then (case slice_expr data (index + 1) (index + unat (elems data ! index) + 1) of
              Inl p \<Rightarrow> Inl p
            | Inr label \<Rightarrow>
                nameLoop data (index + unat (elems data ! index) + 1)
                  ((if index \<noteq> 0 then name @ ''.'' else name) @ map char_of_byte label))
      else Inr (index, name))"
  by pat_completeness auto
termination
  by (relation "measure (\<lambda>(data, index, name). len data - index)") auto

declare nameLoop.simps [simp del]

definition unmarshalQuestion :: "slice \<Rightarrow> panic + (Question \<times> nat \<times> error)" where
  "unmarshalQuestion data =
     (case nameLoop data 0 [] of
        Inl p \<Rightarrow> Inl p
      | Inr (index, name) \<Rightarrow>
          let index = index + 1 in
          (case slice_expr data index (index + 2) of
             Inl p \<Rightarrow> Inl p
           | Inr b1 \<Rightarrow>
               (case slice_expr data (index + 2) (index + 4) of
                  Inl p \<Rightarrow> Inl p
                | Inr b2 \<Rightarrow>
                    Inr (\<lparr>Question.domainName = name, questionType = Uint16 b1,
                           questionClass = Uint16 b2\<rparr>, index + 4, None))))"

section \<open>Resource record codec\<close>

record Answer =
  domainName :: string
  answerType :: uint16
  answerClass :: uint16
  TTL :: uint32
  RDLENGTH :: uint16
  data :: string

text \<open>
  The RDATA loop of \<open>Answer.marshal\<close>: empty segments are skipped, a segment that
  \<open>strconv.Atoi\<close> rejects panics, \<open>byte(n)\<close> keeps the low 8 bits of the integer.
\<close>

fun marshalData :: "string list \<Rightarrow> byte list \<Rightarrow> panic + byte list" where
  "marshalData [] response = Inr response"
| "marshalData (label # rest) response =
     (if length label = 0 then marshalData rest response
      else (case Atoi label of
              None \<Rightarrow> Inl CantConvert
            | Some n \<Rightarrow> marshalData rest (response @ [of_int n])))"

definition Answer_marshal :: "Answer \<Rightarrow> panic + byte list" where
  "Answer_marshal answer =
     (let response = marshalLabels (Split (Answer.domainName answer) CHR ''.'') [];
          response = response @ [0];
          response = response @ [ucast (drop_bit 8 (answerType answer))];
          response = response @ [ucast (answerType answer AND 0xFF)];
          response = response @ [ucast (drop_bit 8 (answerClass answer))];
          response = response @ [ucast (answerClass answer AND 0xFF)];
          response = response @ [ucast (drop_bit 24 (TTL answer))];
          response = response @ [ucast (drop_bit 16 (TTL answer) AND 0xFF)];
          response = response @ [ucast (drop_bit 8 (TTL answer) AND 0xFF)];
          response = response @ [ucast (TTL answer AND 0xFF)];
          response = response @ [ucast (drop_bit 8 (RDLENGTH answer))];
          response = response @ [ucast (RDLENGTH answer AND 0xFF)]
      in marshalData (Split (data answer) CHR ''.'') response)"

text \<open>
  The RDATA loop of \<open>unmarshalAnswer\<close>, \<open>i\<close> running up to \<open>stop\<close>
  (\<open>index+10+int(answer.RDLENGTH)\<close>); \<open>data[i]\<close> is an index expression and panics at
  the length of the slice.
\<close>

function dataLoop :: "slice \<Rightarrow> nat \<Rightarrow> nat \<Rightarrow> string \<Rightarrow> panic + string" where
  "dataLoop d i stop acc =
     (if i < stop
      then (case index_expr d i of
              Inl p \<Rightarrow> Inl p
            | Inr b \<Rightarrow>
                dataLoop d (i + 1) stop
                  (let acc = acc @ Itoa (int (unat b))
                   in if i < stop - 1 then acc @ ''.'' else acc))
      else Inr acc)"
  by pat_completeness auto
termination
  by (relation "measure (\<lambda>(d, i, stop, acc). stop - i)") auto

declare dataLoop.simps [simp del]

definition unmarshalAnswer :: "slice \<Rightarrow> panic + (Answer \<times> nat \<times> error)" where
  "unmarshalAnswer d =
     (case nameLoop d 0 [] of
        Inl p \<Rightarrow> Inl p
      | Inr (index, name) \<Rightarrow>
          let index = index + 1 in
          (case slice_expr d index (index + 2) of
             Inl p \<Rightarrow> Inl p
           | Inr b1 \<Rightarrow>
          (case slice_expr d (index + 2) (index + 4) of
             Inl p \<Rightarrow> Inl p
           | Inr b2 \<Rightarrow>
          (case slice_expr d (index + 4) (index + 8) of
             Inl p \<Rightarrow> Inl p
           | Inr b3 \<Rightarrow>
          (case slice_expr d (index + 8) (index + 10) of
             Inl p \<Rightarrow> Inl p
           | Inr b4 \<Rightarrow>
          (case dataLoop d (index + 10) (index + 10 + unat (Uint16 b4)) [] of
             Inl p \<Rightarrow> Inl p
           | Inr rdata \<Rightarrow>
               Inr (\<lparr>Answer.domainName = name, answerType = Uint16 b1,
                      answerClass = Uint16 b2, TTL = Uint32 b3, RDLENGTH = Uint16 b4,
                      data = rdata\<rparr>,
                    index + 10 + unat (Uint16 b4), None)))))))"

section \<open>Message assembler\<close>

record DNSResponse =
  header :: Header
  question :: "Question list"
  answer :: "Answer list"

text \<open>
  The reply that \<open>main\<close> builds from the decoded header and question (fields not
  named in a composite literal keep their zero value).
\<close>

definition buildReply :: "Header \<Rightarrow> Question \<Rightarrow> DNSResponse" where
  "buildReply recivedHeader recivedQuestion =
     (let header = Header_zero\<lparr>ID := ID recivedHeader, QR := 1, RD := RD recivedHeader,
                     OPCODE := OPCODE recivedHeader\<rparr>;
          header = (if OPCODE recivedHeader = 0 then header\<lparr>RCODE := 0\<rparr>
                    else header\<lparr>RCODE := 4\<rparr>);
          question = \<lparr>Question.domainName = Question.domainName recivedQuestion,
                      questionType = 1, questionClass = 1\<rparr>;
          answer = \<lparr>Answer.domainName = Question.domainName recivedQuestion,
                    answerType = 1, answerClass = 1, TTL = 60, RDLENGTH = 4,
                    data = ''8.8.8.8''\<rparr>
      in \<lparr>header = header, question = [question], answer = [answer]\<rparr>)"

section \<open>Vocabulary of the specification\<close>

text \<open>
  A domain name as the specification describes it: labels joined by single dots.
  This is the specification's notion, not a function of the program.
\<close>

fun joinDots :: "string list \<Rightarrow> string" where
  "joinDots [] = []"
| "joinDots [l] = l"
| "joinDots (l # ls) = l @ ''.'' @ joinDots ls"

text \<open>Test vectors of the repository's own tests.\<close>

definition codecrafters_question :: "byte list" where
  "codecrafters_question =
     [12, 99, 111, 100, 101, 99, 114, 97, 102, 116, 101, 114, 115, 2, 105, 111, 0,
      0, 1, 0, 1]"

definition codecrafters_answer :: "byte list" where
  "codecrafters_answer = codecrafters_question @ [0, 0, 0, 60, 0, 4, 8, 8, 8, 8]"

section \<open>Header codec: properties\<close>

text \<open>
  C9. Header decode returns the error "Invalid header size, need to be at least 12 bytes"
  (the specification's \<open>TooShort\<close>), with the zero header, for every slice of fewer than
  12 bytes, and returns a header with a nil error for every slice of 12 bytes or more.
\<close>

theorem unmarshalHeader_TooShort:
  "(len s < 12 \<longrightarrow>
      unmarshalHeader s
        = (Header_zero, Some ''Invalid header size, need to be at least 12 bytes''))
   \<and> (12 \<le> len s \<longrightarrow> (\<exists>h. unmarshalHeader s = (h, None)))"
  by (simp add: unmarshalHeader_def Let_def)

theorem unmarshalHeader_TooShort_witness:
  "len (exact [4, 210, 128]) < 12
   \<and> unmarshalHeader (exact [4, 210, 128])
       = (Header_zero, Some ''Invalid header size, need to be at least 12 bytes'')
   \<and> 12 \<le> len (exact [4, 210, 128, 0, 0, 0, 0, 0, 0, 0, 0, 0])
   \<and> (\<exists>h. unmarshalHeader (exact [4, 210, 128, 0, 0, 0, 0, 0, 0, 0, 0, 0]) = (h, None))"
proof -
  have short: "len (exact [4, 210, 128]) < 12"
    by (simp add: len_def exact_def)
  have long: "12 \<le> len (exact [4, 210, 128, 0, 0, 0, 0, 0, 0, 0, 0, 0])"
    by (simp add: len_def exact_def)
  show ?thesis
    using short long
      unmarshalHeader_TooShort [of "exact [4, 210, 128]"]
      unmarshalHeader_TooShort [of "exact [4, 210, 128, 0, 0, 0, 0, 0, 0, 0, 0, 0]"]
    by blast
qed

text \<open>
  C1. The header round trip fails on the code: \<open>unmarshalHeader\<close> never assigns
  \<open>RCODE\<close> and overwrites \<open>Z\<close> with the low nibble of byte 3. For the header
  \<open>{ID: 1234, QR: 1, OPCODE: 1, RCODE: 4}\<close>, all fields within their bit widths (the
  reply header the server itself builds for a query with opcode 1), decoding the encoding
  gives \<open>Z = 4\<close> and \<open>RCODE = 0\<close>, not the original header.
\<close>

theorem header_roundtrip_loses_rcode:
  "unmarshalHeader (exact (Header_marshal (Header_zero\<lparr>ID := 1234, QR := 1, OPCODE := 1, RCODE := 4\<rparr>)))
     = (Header_zero\<lparr>ID := 1234, QR := 1, OPCODE := 1, Z := 4, RCODE := 0\<rparr>, None)
   \<and> unmarshalHeader (exact (Header_marshal (Header_zero\<lparr>ID := 1234, QR := 1, OPCODE := 1, RCODE := 4\<rparr>)))
     \<noteq> (Header_zero\<lparr>ID := 1234, QR := 1, OPCODE := 1, RCODE := 4\<rparr>, None)"
  by (simp add: Header_marshal_def Header_zero_def unmarshalHeader_def exact_def len_def
        Uint16_def)

text \<open>
  C2. Byte 3 is not unpacked as the claim says: on the 12 bytes
  \<open>04 D2 80 04 00 00 00 00 00 00 00 00\<close> the decoded header has \<open>Z = 4\<close> (the low
  nibble of byte 3) and \<open>RCODE = 0\<close>, where the claim gives \<open>Z = (data[3]>>4)&7 = 0\<close>
  and \<open>RCODE = data[3]&0xF = 4\<close>.
\<close>

theorem unmarshalHeader_byte3_misassigned:
  "Z (fst (unmarshalHeader (exact [4, 210, 128, 4, 0, 0, 0, 0, 0, 0, 0, 0]))) = 4
   \<and> RCODE (fst (unmarshalHeader (exact [4, 210, 128, 4, 0, 0, 0, 0, 0, 0, 0, 0]))) = 0
   \<and> drop_bit 4 ([4, 210, 128, 4, 0, 0, 0, 0, 0, 0, 0, 0 :: byte] ! 3) AND 0x7 = 0
   \<and> ([4, 210, 128, 4, 0, 0, 0, 0, 0, 0, 0, 0 :: byte] ! 3) AND 0xF = 4"
  by (simp add: Header_zero_def unmarshalHeader_def exact_def len_def Uint16_def)

text \<open>Bounds on the bits of a field within its width.\<close>

lemma and_255_16: "(t :: uint16) AND 0xFF = take_bit 8 t"
  by (simp add: take_bit_eq_mask mask_eq_exp_minus_1)

lemma Uint16_bytes: "Uint16 [ucast (drop_bit 8 t), ucast (t AND 0xFF)] = (t :: uint16)"
  unfolding Uint16_def and_255_16
  apply simp
  apply (rule bit_word_eqI)
  apply (auto simp: bit_simps)
  done

lemma byte_bits_bound:
  assumes "(x :: byte) < 2 ^ k" "bit x n"
  shows "n < k"
proof -
  have "take_bit k x = x"
    using assms(1) by (simp add: take_bit_eq_mask less_mask_eq)
  then have "bit x n = bit (take_bit k x) n" by simp
  then show ?thesis using assms(2) by (simp add: bit_take_bit_iff)
qed

lemma byte_le_1_bits: "(x :: byte) \<le> 1 \<Longrightarrow> bit x n \<Longrightarrow> n = 0"
  using byte_bits_bound [of x 1 n] by (simp add: word_le_nat_alt word_less_nat_alt)

lemma byte_le_7_bits: "(x :: byte) \<le> 7 \<Longrightarrow> bit x n \<Longrightarrow> n < 3"
  using byte_bits_bound [of x 3 n] by (simp add: word_le_nat_alt word_less_nat_alt)

lemma byte_le_15_bits: "(x :: byte) \<le> 15 \<Longrightarrow> bit x n \<Longrightarrow> n < 4"
  using byte_bits_bound [of x 4 n] by (simp add: word_le_nat_alt word_less_nat_alt)

lemma and_15_byte: "(x :: byte) AND 0xF = take_bit 4 x"
  by (simp add: take_bit_eq_mask mask_eq_exp_minus_1)

lemma bit_double_byte: "bit (x * 2 :: byte) n \<longleftrightarrow> 0 < n \<and> n < 8 \<and> bit x (n - 1)"
proof -
  have "bit (push_bit (Suc 0) x) n \<longleftrightarrow> Suc 0 \<le> n \<and> n < 8 \<and> bit x (n - Suc 0)"
    by (simp only: bit_push_bit_iff possible_bit_word) auto
  then show ?thesis by (auto simp: push_bit_eq_mult)
qed

lemma byte2_decode:
  fixes qr op aa tc rd :: byte
  assumes "qr \<le> 1" "op \<le> 15" "aa \<le> 1" "tc \<le> 1" "rd \<le> 1"
  defines "b \<equiv> push_bit 7 qr OR push_bit 3 op OR push_bit 2 aa OR push_bit 1 tc OR rd"
  shows "drop_bit 7 b = qr"
    and "drop_bit 3 b AND 0xF = op"
    and "drop_bit 2 b AND 1 = aa"
    and "drop_bit 1 b AND 1 = tc"
    and "b AND 1 = rd"
  unfolding b_def and_15_byte
  by (rule_tac [!] bit_word_eqI)
     (auto simp: bit_simps bit_double_byte
           dest: byte_le_1_bits [OF assms(1)] byte_le_15_bits [OF assms(2)]
                 byte_le_1_bits [OF assms(3)] byte_le_1_bits [OF assms(4)]
                 byte_le_1_bits [OF assms(5)])

lemma byte3_decode:
  fixes ra z rc :: byte
  assumes "ra \<le> 1" "z \<le> 7" "rc \<le> 15"
  defines "b \<equiv> push_bit 7 ra OR push_bit 4 z OR rc"
  shows "drop_bit 7 b = ra"
    and "b AND 0xF = rc"
  unfolding b_def and_15_byte
  by (rule_tac [!] bit_word_eqI)
     (auto simp: bit_simps
           dest: byte_le_1_bits [OF assms(1)] byte_le_7_bits [OF assms(2)]
                 byte_le_15_bits [OF assms(3)])


text \<open>
  What the header round trip does give, for every header whose fields are within their
  bit widths: every field comes back except that \<open>Z\<close> holds the original \<open>RCODE\<close>
  and \<open>RCODE\<close> is zero. So the round trip is the identity exactly on the headers with
  \<open>Z = 0\<close> and \<open>RCODE = 0\<close>.
\<close>

lemma header_roundtrip_except_rcode:
  assumes "QR h \<le> 1" "OPCODE h \<le> 15" "AA h \<le> 1" "TC h \<le> 1" "RD h \<le> 1"
    "RA h \<le> 1" "Z h \<le> 7" "RCODE h \<le> 15"
  shows "unmarshalHeader (exact (Header_marshal h)) = (h\<lparr>Z := RCODE h, RCODE := 0\<rparr>, None)"
proof -
  define b2 where "b2 = push_bit 7 (QR h) OR push_bit 3 (OPCODE h) OR push_bit 2 (AA h)
                          OR push_bit 1 (TC h) OR RD h"
  define b3 where "b3 = push_bit 7 (RA h) OR push_bit 4 (Z h) OR RCODE h"
  have m: "Header_marshal h =
     [ucast (drop_bit 8 (ID h)), ucast (ID h AND 0xFF), b2, b3,
      ucast (drop_bit 8 (QDCOUNT h)), ucast (QDCOUNT h AND 0xFF),
      ucast (drop_bit 8 (ANCOUNT h)), ucast (ANCOUNT h AND 0xFF),
      ucast (drop_bit 8 (NSCOUNT h)), ucast (NSCOUNT h AND 0xFF),
      ucast (drop_bit 8 (ARCOUNT h)), ucast (ARCOUNT h AND 0xFF)]"
    unfolding Header_marshal_def b2_def b3_def by (rule refl)
  have d2: "drop_bit 7 b2 = QR h" "drop_bit 3 b2 AND 0xF = OPCODE h"
    "drop_bit 2 b2 AND 0x1 = AA h" "drop_bit 1 b2 AND 0x1 = TC h" "b2 AND 0x1 = RD h"
    unfolding b2_def by (rule byte2_decode [OF assms(1-5)])+
  have d3: "drop_bit 7 b3 = RA h" "b3 AND 0xF = RCODE h"
    unfolding b3_def by (rule byte3_decode [OF assms(6-8)])+
  have "unmarshalHeader (exact (Header_marshal h))
        = (\<lparr>ID = Uint16 [ucast (drop_bit 8 (ID h)), ucast (ID h AND 0xFF)],
            QR = drop_bit 7 b2, OPCODE = drop_bit 3 b2 AND 0xF,
            AA = drop_bit 2 b2 AND 0x1, TC = drop_bit 1 b2 AND 0x1, RD = b2 AND 0x1,
            RA = drop_bit 7 b3, Z = b3 AND 0xF, RCODE = 0,
            QDCOUNT = Uint16 [ucast (drop_bit 8 (QDCOUNT h)), ucast (QDCOUNT h AND 0xFF)],
            ANCOUNT = Uint16 [ucast (drop_bit 8 (ANCOUNT h)), ucast (ANCOUNT h AND 0xFF)],
            NSCOUNT = Uint16 [ucast (drop_bit 8 (NSCOUNT h)), ucast (NSCOUNT h AND 0xFF)],
            ARCOUNT = Uint16 [ucast (drop_bit 8 (ARCOUNT h)), ucast (ARCOUNT h AND 0xFF)]\<rparr>,
           None)"
    unfolding m by (simp add: unmarshalHeader_def exact_def len_def Header_zero_def)
  also have "\<dots> = (\<lparr>ID = ID h, QR = QR h, OPCODE = OPCODE h, AA = AA h, TC = TC h,
            RD = RD h, RA = RA h, Z = RCODE h, RCODE = 0, QDCOUNT = QDCOUNT h,
            ANCOUNT = ANCOUNT h, NSCOUNT = NSCOUNT h, ARCOUNT = ARCOUNT h\<rparr>, None)"
    by (simp only: d2 d3 Uint16_bytes)
  also have "\<dots> = (h\<lparr>Z := RCODE h, RCODE := 0\<rparr>, None)"
    by (cases h) simp
  finally show ?thesis .
qed

lemma header_roundtrip_iff:
  assumes "QR h \<le> 1" "OPCODE h \<le> 15" "AA h \<le> 1" "TC h \<le> 1" "RD h \<le> 1"
    "RA h \<le> 1" "Z h \<le> 7" "RCODE h \<le> 15"
  shows "unmarshalHeader (exact (Header_marshal h)) = (h, None) \<longleftrightarrow> Z h = 0 \<and> RCODE h = 0"
  unfolding header_roundtrip_except_rcode [OF assms]
  by (cases h) auto

section \<open>Message assembler: properties\<close>

text \<open>
  C7. The reply built from a decoded header and question: the header copies id, rd and
  opcode, has qr = 1, rcode = 0 when the opcode is 0 and 4 otherwise, and aa, tc, ra, z
  zero; there is exactly one answer record, with the query's name, type 1, class 1,
  ttl 60 and the RDATA string 8.8.8.8, whose encoding is the four bytes 8 8 8 8.
\<close>

theorem buildReply_fields:
  "ID (header (buildReply h q)) = ID h
   \<and> RD (header (buildReply h q)) = RD h
   \<and> OPCODE (header (buildReply h q)) = OPCODE h
   \<and> QR (header (buildReply h q)) = 1
   \<and> RCODE (header (buildReply h q)) = (if OPCODE h = 0 then 0 else 4)
   \<and> AA (header (buildReply h q)) = 0
   \<and> TC (header (buildReply h q)) = 0
   \<and> RA (header (buildReply h q)) = 0
   \<and> Z (header (buildReply h q)) = 0
   \<and> answer (buildReply h q)
       = [\<lparr>Answer.domainName = Question.domainName q, answerType = 1, answerClass = 1,
           TTL = 60, RDLENGTH = 4, data = ''8.8.8.8''\<rparr>]
   \<and> marshalData (Split ''8.8.8.8'' CHR ''.'') [] = Inr [8, 8, 8, 8]"
  by (simp add: buildReply_def Header_zero_def Let_def Atoi_def)

section \<open>Auxiliary facts about bytes, strings and the name loop\<close>

lemma unat_byte_of_char: "unat (of_char c :: byte) = of_char c"
proof -
  have "unat (of_nat (of_char c) :: byte) = of_char c mod 256"
    by (simp only: unat_of_nat) simp
  then show ?thesis by (simp add: of_nat_of_char)
qed

lemma char_of_byte_of_char: "char_of_byte (byte_of_char c) = c"
  unfolding char_of_byte_def byte_of_char_def
  by (simp add: unat_byte_of_char)

lemma map_char_of_byte_of_char: "map char_of_byte (map byte_of_char l) = l"
  by (induction l) (simp_all add: char_of_byte_of_char)

lemma marshalLabels_acc: "marshalLabels ls acc = acc @ marshalLabels ls []"
proof (induction ls arbitrary: acc)
  case Nil
  then show ?case by simp
next
  case (Cons l ls)
  show ?case
    using Cons.IH [of "(acc @ [of_nat (length l)]) @ map byte_of_char l"]
          Cons.IH [of "([] @ [of_nat (length l)]) @ map byte_of_char l"]
          Cons.IH [of acc]
    by simp
qed

lemma marshalLabels_Cons:
  "l \<noteq> [] \<Longrightarrow> marshalLabels (l # ls) [] = (of_nat (length l) # map byte_of_char l) @ marshalLabels ls []"
  using marshalLabels_acc [of ls "[of_nat (length l)] @ map byte_of_char l"] by simp

lemma unat_length_byte: "n < 256 \<Longrightarrow> unat (of_nat n :: byte) = n"
  by (simp add: unat_of_nat)

lemma length_byte_nonzero: "0 < n \<Longrightarrow> n < 256 \<Longrightarrow> (of_nat n :: byte) \<noteq> 0"
  using unat_length_byte [of n] by auto

text \<open>One turn of the loop over a complete label.\<close>

lemma nameLoop_label:
  assumes "0 < length l" "length l < 256"
  shows "nameLoop \<lparr>elems = pre @ (of_nat (length l) # map byte_of_char l) @ rest, spare = sp\<rparr>
           (length pre) name
         = nameLoop \<lparr>elems = pre @ (of_nat (length l) # map byte_of_char l) @ rest, spare = sp\<rparr>
             (length pre + length l + 1)
             ((if length pre \<noteq> 0 then name @ ''.'' else name) @ l)"
proof -
  let ?d = "\<lparr>elems = pre @ (of_nat (length l) # map byte_of_char l) @ rest, spare = sp\<rparr>"
  have b: "elems ?d ! length pre = of_nat (length l)" by simp
  have u: "unat (of_nat (length l) :: byte) = length l"
    using assms by (simp add: unat_length_byte)
  have nz: "(of_nat (length l) :: byte) \<noteq> 0"
    using assms by (rule length_byte_nonzero)
  have lt: "len ?d > length pre" by (simp add: len_def)
  have sl: "slice_expr ?d (length pre + 1) (length pre + length l + 1) = Inr (map byte_of_char l)"
    by (simp add: slice_expr_def cap_def)
  show ?thesis
    by (subst nameLoop.simps)
       (simp only: lt b u nz sl sum.case if_True simp_thms map_char_of_byte_of_char)
qed

lemma nameLoop_labels:
  assumes "\<forall>l\<in>set ls. 0 < length l \<and> length l < 256"
  shows "nameLoop \<lparr>elems = pre @ marshalLabels ls [] @ rest, spare = sp\<rparr> (length pre) name
         = nameLoop \<lparr>elems = pre @ marshalLabels ls [] @ rest, spare = sp\<rparr>
             (length pre + length (marshalLabels ls []))
             (if ls = [] then name
              else (if length pre \<noteq> 0 then name @ ''.'' else name) @ joinDots ls)"
  using assms
proof (induction ls arbitrary: pre name)
  case Nil
  then show ?case by simp
next
  case (Cons l ls)
  let ?e = "of_nat (length l) # map byte_of_char l :: byte list"
  let ?name1 = "(if length pre \<noteq> 0 then name @ ''.'' else name) @ l"
  define D where "D = \<lparr>elems = pre @ marshalLabels (l # ls) [] @ rest, spare = sp\<rparr>"
  have l: "0 < length l" "length l < 256" using Cons.prems by auto
  then have ne: "l \<noteq> []" by auto
  have ml: "marshalLabels (l # ls) [] = ?e @ marshalLabels ls []"
    using ne by (rule marshalLabels_Cons)
  have D1: "D = \<lparr>elems = pre @ ?e @ (marshalLabels ls [] @ rest), spare = sp\<rparr>"
    unfolding D_def ml by simp
  have D2: "D = \<lparr>elems = (pre @ ?e) @ marshalLabels ls [] @ rest, spare = sp\<rparr>"
    unfolding D_def ml by simp
  have step: "nameLoop D (length pre) name = nameLoop D (length pre + length l + 1) ?name1"
    unfolding D1 using l by (rule nameLoop_label)
  have ih: "nameLoop D (length (pre @ ?e)) ?name1
            = nameLoop D (length (pre @ ?e) + length (marshalLabels ls []))
              (if ls = [] then ?name1
               else (if length (pre @ ?e) \<noteq> 0 then ?name1 @ ''.'' else ?name1) @ joinDots ls)"
    unfolding D2 using Cons.prems by (intro Cons.IH) simp
  have idx: "length (pre @ ?e) = length pre + length l + 1" by simp
  have idx2: "length (pre @ ?e) + length (marshalLabels ls [])
              = length pre + length (marshalLabels (l # ls) [])"
    unfolding ml by simp
  have jd: "joinDots (l # ls) = (if ls = [] then l else l @ ''.'' @ joinDots ls)"
    by (cases ls) simp_all
  have nm: "(if ls = [] then ?name1
             else (if length (pre @ ?e) \<noteq> 0 then ?name1 @ ''.'' else ?name1) @ joinDots ls)
            = (if l # ls = [] then name
               else (if length pre \<noteq> 0 then name @ ''.'' else name) @ joinDots (l # ls))"
    by (simp add: jd)
  have "nameLoop D (length pre) name
        = nameLoop D (length (pre @ ?e) + length (marshalLabels ls []))
              (if ls = [] then ?name1
               else (if length (pre @ ?e) \<noteq> 0 then ?name1 @ ''.'' else ?name1) @ joinDots ls)"
    using step ih by (simp only: idx)
  then have "nameLoop D (length pre) name
        = nameLoop D (length pre + length (marshalLabels (l # ls) []))
            (if l # ls = [] then name
             else (if length pre \<noteq> 0 then name @ ''.'' else name) @ joinDots (l # ls))"
    by (simp only: idx2 nm)
  then show ?case unfolding D_def .
qed


lemma Split_nodot: "sep \<notin> set l \<Longrightarrow> Split l sep = [l]"
  by (induction l) auto

lemma Split_append_sep:
  "sep \<notin> set l \<Longrightarrow> Split (l @ sep # r) sep = l # Split r sep"
  by (induction l) auto

lemma Split_joinDots:
  "ls \<noteq> [] \<Longrightarrow> \<forall>l\<in>set ls. CHR ''.'' \<notin> set l \<Longrightarrow> Split (joinDots ls) CHR ''.'' = ls"
proof (induction ls rule: joinDots.induct)
  case 1
  then show ?case by simp
next
  case (2 l)
  then show ?case by (simp add: Split_nodot)
next
  case (3 l m ls)
  then show ?case by (simp add: Split_append_sep)
qed

lemma marshalLabels_Split_joinDots:
  assumes "\<forall>l\<in>set ls. CHR ''.'' \<notin> set l"
  shows "marshalLabels (Split (joinDots ls) CHR ''.'') [] = marshalLabels ls []"
proof (cases "ls = []")
  case True
  then show ?thesis by simp
next
  case False
  then show ?thesis using assms by (simp add: Split_joinDots)
qed

lemma nameLoop_stop:
  assumes "\<not> (len d > index \<and> elems d ! index \<noteq> 0)"
  shows "nameLoop d index name = Inr (index, name)"
  by (subst nameLoop.simps) (simp only: assms if_False)

lemma Question_marshal_joinDots:
  assumes "\<forall>l\<in>set ls. CHR ''.'' \<notin> set l"
  shows "Question_marshal \<lparr>Question.domainName = joinDots ls, questionType = t, questionClass = c\<rparr>
         = marshalLabels ls [] @
           [0, ucast (drop_bit 8 t), ucast (t AND 0xFF), ucast (drop_bit 8 c), ucast (c AND 0xFF)]"
  using marshalLabels_Split_joinDots [OF assms]
  by (simp add: Question_marshal_def Let_def)

lemma nameLoop_whole_name:
  assumes "\<forall>l\<in>set ls. 0 < length l \<and> length l < 256"
  shows "nameLoop \<lparr>elems = marshalLabels ls [] @ 0 # rest, spare = sp\<rparr> 0 []
         = Inr (length (marshalLabels ls []), joinDots ls)"
proof -
  let ?d = "\<lparr>elems = marshalLabels ls [] @ 0 # rest, spare = sp\<rparr>"
  have "nameLoop \<lparr>elems = [] @ marshalLabels ls [] @ 0 # rest, spare = sp\<rparr> (length ([] :: byte list)) []
        = nameLoop \<lparr>elems = [] @ marshalLabels ls [] @ 0 # rest, spare = sp\<rparr>
            (length ([] :: byte list) + length (marshalLabels ls []))
            (if ls = [] then []
             else (if length ([] :: byte list) \<noteq> 0 then [] @ ''.'' else []) @ joinDots ls)"
    using assms by (rule nameLoop_labels)
  then have "nameLoop ?d 0 [] = nameLoop ?d (length (marshalLabels ls [])) (joinDots ls)"
    by (cases "ls = []") simp_all
  moreover have "nameLoop ?d (length (marshalLabels ls [])) (joinDots ls)
                 = Inr (length (marshalLabels ls []), joinDots ls)"
    by (rule nameLoop_stop) (simp add: len_def)
  ultimately show ?thesis by simp
qed

section \<open>Question codec: properties\<close>

text \<open>
  C8. Question round trip: for a name made of labels of 1 to 63 bytes without dots,
  joined by single dots, and any type and class, decoding the encoded bytes (in a slice
  of any spare capacity) returns the same Question, reports as bytes consumed the length
  of the encoding, and a nil error.
\<close>

theorem Question_roundtrip:
  assumes "\<forall>l\<in>set ls. 1 \<le> length l \<and> length l \<le> 63 \<and> CHR ''.'' \<notin> set l"
  shows "unmarshalQuestion
           \<lparr>elems = Question_marshal
                      \<lparr>Question.domainName = joinDots ls, questionType = t, questionClass = c\<rparr>,
            spare = sp\<rparr>
         = Inr (\<lparr>Question.domainName = joinDots ls, questionType = t, questionClass = c\<rparr>,
                length (Question_marshal
                      \<lparr>Question.domainName = joinDots ls, questionType = t, questionClass = c\<rparr>),
                None)"
proof -
  let ?n = "marshalLabels ls []"
  let ?rest = "[ucast (drop_bit 8 t), ucast (t AND 0xFF), ucast (drop_bit 8 c), ucast (c AND 0xFF)] :: byte list"
  let ?d = "\<lparr>elems = ?n @ 0 # ?rest, spare = sp\<rparr>"
  have nodot: "\<forall>l\<in>set ls. CHR ''.'' \<notin> set l" using assms by simp
  have lens: "\<forall>l\<in>set ls. 0 < length l \<and> length l < 256" using assms by auto
  have m: "Question_marshal \<lparr>Question.domainName = joinDots ls, questionType = t, questionClass = c\<rparr>
           = ?n @ 0 # ?rest"
    using Question_marshal_joinDots [OF nodot, of t c] by simp
  have loop: "nameLoop ?d 0 [] = Inr (length ?n, joinDots ls)"
    using lens by (rule nameLoop_whole_name)
  have s1: "slice_expr ?d (length ?n + 1) (length ?n + 1 + 2)
            = Inr [ucast (drop_bit 8 t), ucast (t AND 0xFF)]"
    by (simp add: slice_expr_def cap_def)
  have s2: "slice_expr ?d (length ?n + 1 + 2) (length ?n + 1 + 4)
            = Inr [ucast (drop_bit 8 c), ucast (c AND 0xFF)]"
    by (simp add: slice_expr_def cap_def)
  have "unmarshalQuestion ?d
        = Inr (\<lparr>Question.domainName = joinDots ls, questionType = t, questionClass = c\<rparr>,
               length ?n + 1 + 4, None)"
    unfolding unmarshalQuestion_def Let_def
    by (simp only: loop s1 s2 sum.case prod.case Uint16_bytes)
  then show ?thesis unfolding m by simp
qed


theorem Question_roundtrip_witness:
  "length ''codecrafters'' = 12 \<and> length ''io'' = 2
   \<and> joinDots [''codecrafters'', ''io''] = ''codecrafters.io''
   \<and> unmarshalQuestion
         \<lparr>elems = Question_marshal
                    \<lparr>Question.domainName = ''codecrafters.io'', questionType = 1, questionClass = 1\<rparr>,
          spare = []\<rparr>
       = Inr (\<lparr>Question.domainName = ''codecrafters.io'', questionType = 1, questionClass = 1\<rparr>,
              21, None)"
proof -
  have h: "\<forall>l\<in>set [''codecrafters'', ''io'']. 1 \<le> length l \<and> length l \<le> 63 \<and> CHR ''.'' \<notin> set l"
    by simp
  have n: "joinDots [''codecrafters'', ''io''] = ''codecrafters.io''" by simp
  have m: "length (Question_marshal
             \<lparr>Question.domainName = ''codecrafters.io'', questionType = 1, questionClass = 1\<rparr>) = 21"
    by (simp add: Question_marshal_def)
  show ?thesis
    using Question_roundtrip [OF h, of 1 1 "[]"] unfolding n m by simp
qed

lemma codecrafters_question_decoded:
  "unmarshalQuestion (exact codecrafters_question)
   = Inr (\<lparr>Question.domainName = ''codecrafters.io'', questionType = 1, questionClass = 1\<rparr>,
          21, None)"
  by (simp add: unmarshalQuestion_def codecrafters_question_def exact_def nameLoop.simps
        len_def cap_def slice_expr_def char_of_byte_def char_of_def bit_Suc_0_iff Uint16_def)

lemma codecrafters_answer_decoded:
  "unmarshalAnswer (exact codecrafters_answer)
   = Inr (\<lparr>Answer.domainName = ''codecrafters.io'', answerType = 1, answerClass = 1,
            TTL = 60, RDLENGTH = 4, data = ''8.8.8.8''\<rparr>, 31, None)"
  by (simp add: unmarshalAnswer_def codecrafters_answer_def codecrafters_question_def
        exact_def nameLoop.simps dataLoop.simps index_expr_def Itoa_def digits_of.simps
        len_def cap_def slice_expr_def char_of_byte_def char_of_def bit_Suc_0_iff Uint16_def Uint32_def)

text \<open>
  C10. Whenever \<open>unmarshalQuestion\<close> or \<open>unmarshalAnswer\<close> returns (does not panic),
  the error it returns is nil.
\<close>

theorem unmarshal_error_nil:
  "(unmarshalQuestion d = Inr (q, n, e) \<longrightarrow> e = None)
   \<and> (unmarshalAnswer d = Inr (a, m, e') \<longrightarrow> e' = None)"
  by (auto simp: unmarshalQuestion_def unmarshalAnswer_def Let_def
           split: sum.splits prod.splits)


theorem unmarshal_error_nil_witness:
  "unmarshalQuestion (exact codecrafters_question)
     = Inr (\<lparr>Question.domainName = ''codecrafters.io'', questionType = 1, questionClass = 1\<rparr>,
            21, None)
   \<and> unmarshalAnswer (exact codecrafters_answer)
     = Inr (\<lparr>Answer.domainName = ''codecrafters.io'', answerType = 1, answerClass = 1,
              TTL = 60, RDLENGTH = 4, data = ''8.8.8.8''\<rparr>, 31, None)"
  using codecrafters_question_decoded codecrafters_answer_decoded
    unmarshal_error_nil [of "exact codecrafters_question"
      "\<lparr>Question.domainName = ''codecrafters.io'', questionType = 1, questionClass = 1\<rparr>"
      21 None]
    unmarshal_error_nil [of "exact codecrafters_answer" _ _ _
      "\<lparr>Answer.domainName = ''codecrafters.io'', answerType = 1, answerClass = 1,
              TTL = 60, RDLENGTH = 4, data = ''8.8.8.8''\<rparr>" 31 None]
  by blast

section \<open>Domain name codec: properties\<close>

lemma nameLoop_truncated:
  assumes "index < len d" "elems d ! index \<noteq> 0"
    "cap d < index + unat (elems d ! index) + 1"
  shows "nameLoop d index name = Inl SliceBoundsOutOfRange"
proof -
  have s: "slice_expr d (index + 1) (index + unat (elems d ! index) + 1)
           = Inl SliceBoundsOutOfRange"
    using assms(3) by (simp add: slice_expr_def)
  show ?thesis
    by (subst nameLoop.simps) (simp only: assms(1,2) s if_True sum.case simp_thms)
qed

lemma nameLoop_truncated_after_labels:
  assumes "\<forall>l\<in>set ls. 0 < length l \<and> length l < 256"
    and "b \<noteq> 0" and "length tail + length sp < unat b"
  shows "nameLoop \<lparr>elems = marshalLabels ls [] @ b # tail, spare = sp\<rparr> 0 []
         = Inl SliceBoundsOutOfRange"
proof -
  let ?d = "\<lparr>elems = marshalLabels ls [] @ b # tail, spare = sp\<rparr>"
  let ?i = "length (marshalLabels ls [])"
  have "nameLoop \<lparr>elems = [] @ marshalLabels ls [] @ b # tail, spare = sp\<rparr> (length ([] :: byte list)) []
        = nameLoop \<lparr>elems = [] @ marshalLabels ls [] @ b # tail, spare = sp\<rparr>
            (length ([] :: byte list) + length (marshalLabels ls []))
            (if ls = [] then []
             else (if length ([] :: byte list) \<noteq> 0 then [] @ ''.'' else []) @ joinDots ls)"
    using assms(1) by (rule nameLoop_labels)
  then have "nameLoop ?d 0 [] = nameLoop ?d ?i (joinDots ls)"
    by (cases "ls = []") simp_all
  moreover have "nameLoop ?d ?i (joinDots ls) = Inl SliceBoundsOutOfRange"
    using assms(2,3) by (intro nameLoop_truncated) (simp_all add: len_def cap_def)
  ultimately show ?thesis by simp
qed

text \<open>
  C5 (as amended). Domain name decode is not total and has no \<open>TruncatedLabel\<close> error
  value: for every slice that holds complete labels followed by a length byte \<open>b\<close>
  whose label would reach beyond the capacity of the slice, \<open>unmarshalQuestion\<close> and
  \<open>unmarshalAnswer\<close> stop with the run-time panic "slice bounds out of range" and
  return nothing.
\<close>

theorem unmarshal_truncated_label_panics:
  assumes "\<forall>l\<in>set ls. 0 < length l \<and> length l < 256"
    and "b \<noteq> 0" and "length tail + length sp < unat b"
  shows "unmarshalQuestion \<lparr>elems = marshalLabels ls [] @ b # tail, spare = sp\<rparr>
           = Inl SliceBoundsOutOfRange
         \<and> unmarshalAnswer \<lparr>elems = marshalLabels ls [] @ b # tail, spare = sp\<rparr>
           = Inl SliceBoundsOutOfRange"
  using nameLoop_truncated_after_labels [OF assms]
  by (simp add: unmarshalQuestion_def unmarshalAnswer_def)

theorem unmarshal_truncated_label_panics_witness:
  "unmarshalQuestion \<lparr>elems = [2, 105, 111, 5, 97], spare = []\<rparr> = Inl SliceBoundsOutOfRange
   \<and> unmarshalAnswer \<lparr>elems = [2, 105, 111, 5, 97], spare = []\<rparr> = Inl SliceBoundsOutOfRange"
proof -
  have h1: "\<forall>l\<in>set [''io'']. 0 < length l \<and> length l < 256" by simp
  have h2: "(5 :: byte) \<noteq> 0" by simp
  have h3: "length [97 :: byte] + length ([] :: byte list) < unat (5 :: byte)" by simp
  have m: "marshalLabels [''io''] [] = [2, 105, 111]"
    by (simp add: byte_of_char_def)
  show ?thesis
    using unmarshal_truncated_label_panics [OF h1 h2 h3] unfolding m by simp
qed

text \<open>
  The claim as stated fails on the two bytes \<open>05 61\<close> (a label of declared length 5
  with one byte of content, in a slice with no spare capacity): the result is a panic,
  not a returned error value.
\<close>

theorem unmarshal_truncated_label_counterexample:
  "unmarshalQuestion (exact [5, 97]) = Inl SliceBoundsOutOfRange
   \<and> unmarshalAnswer (exact [5, 97]) = Inl SliceBoundsOutOfRange"
  by (simp add: unmarshalQuestion_def unmarshalAnswer_def exact_def nameLoop.simps
        len_def cap_def slice_expr_def)

text \<open>
  Between the length and the capacity of the slice nothing is detected at all: the label
  is read from the underlying array (in \<open>main\<close>, the rest of the 2048-byte receive
  buffer) and the decode returns with a nil error.
\<close>

lemma unmarshalQuestion_reads_spare:
  "unmarshalQuestion \<lparr>elems = [1], spare = [97, 0, 0, 1, 0, 1]\<rparr>
   = Inr (\<lparr>Question.domainName = ''a'', questionType = 1, questionClass = 1\<rparr>, 7, None)"
  by (simp add: unmarshalQuestion_def nameLoop.simps len_def cap_def slice_expr_def
        char_of_byte_def char_of_def bit_Suc_0_iff Uint16_def)

lemma marshalLabels_concat:
  assumes "\<forall>l\<in>set ls. l \<noteq> []"
  shows "marshalLabels ls [] = concat (map (\<lambda>l. of_nat (length l) # map byte_of_char l) ls)"
  using assms
proof (induction ls)
  case Nil
  then show ?case by simp
next
  case (Cons l ls)
  then have "l \<noteq> []" by simp
  then have "marshalLabels (l # ls) [] = (of_nat (length l) # map byte_of_char l) @ marshalLabels ls []"
    by (rule marshalLabels_Cons)
  then show ?case using Cons by simp
qed

lemma Answer_marshal_joinDots:
  assumes "\<forall>l\<in>set ls. CHR ''.'' \<notin> set l"
  shows "Answer_marshal \<lparr>Answer.domainName = joinDots ls, answerType = t, answerClass = c,
           TTL = ttl, RDLENGTH = n, data = d\<rparr>
         = marshalData (Split d CHR ''.'')
             (marshalLabels ls [] @
              [0, ucast (drop_bit 8 t), ucast (t AND 0xFF), ucast (drop_bit 8 c), ucast (c AND 0xFF),
               ucast (drop_bit 24 ttl), ucast (drop_bit 16 ttl AND 0xFF),
               ucast (drop_bit 8 ttl AND 0xFF), ucast (ttl AND 0xFF),
               ucast (drop_bit 8 n), ucast (n AND 0xFF)])"
  using marshalLabels_Split_joinDots [OF assms]
  by (simp add: Answer_marshal_def Let_def)

text \<open>
  C4 (as amended). Domain name encode has no \<open>LabelTooLong\<close> failure: for a name made
  of non-empty labels of any length, \<open>Question.marshal\<close> returns, and
  \<open>Answer.marshal\<close> reaches its RDATA loop with, every label encoded as the byte
  \<open>len(label) mod 256\<close> followed by the label's bytes, then the zero terminator and the
  fixed fields. Labels of 63 and of 64 bytes are encoded alike.
\<close>

theorem marshal_has_no_label_bound:
  assumes "\<forall>l\<in>set ls. l \<noteq> [] \<and> CHR ''.'' \<notin> set l"
  shows "Question_marshal \<lparr>Question.domainName = joinDots ls, questionType = t, questionClass = c\<rparr>
         = concat (map (\<lambda>l. of_nat (length l) # map byte_of_char l) ls) @
           [0, ucast (drop_bit 8 t), ucast (t AND 0xFF), ucast (drop_bit 8 c), ucast (c AND 0xFF)]
       \<and> Answer_marshal \<lparr>Answer.domainName = joinDots ls, answerType = t, answerClass = c,
           TTL = ttl, RDLENGTH = n, data = d\<rparr>
         = marshalData (Split d CHR ''.'')
             (concat (map (\<lambda>l. of_nat (length l) # map byte_of_char l) ls) @
              [0, ucast (drop_bit 8 t), ucast (t AND 0xFF), ucast (drop_bit 8 c), ucast (c AND 0xFF),
               ucast (drop_bit 24 ttl), ucast (drop_bit 16 ttl AND 0xFF),
               ucast (drop_bit 8 ttl AND 0xFF), ucast (ttl AND 0xFF),
               ucast (drop_bit 8 n), ucast (n AND 0xFF)])"
proof -
  have nodot: "\<forall>l\<in>set ls. CHR ''.'' \<notin> set l" using assms by simp
  have ne: "\<forall>l\<in>set ls. l \<noteq> []" using assms by simp
  show ?thesis
    unfolding Question_marshal_joinDots [OF nodot] Answer_marshal_joinDots [OF nodot]
      marshalLabels_concat [OF ne]
    by simp
qed

lemma byte_of_char_a: "byte_of_char CHR ''a'' = 97"
  by (simp add: byte_of_char_def)

theorem marshal_has_no_label_bound_witness:
  "length (replicate 64 CHR ''a'') = 64
   \<and> Question_marshal
       \<lparr>Question.domainName = replicate 64 CHR ''a'', questionType = 1, questionClass = 1\<rparr>
     = 64 # replicate 64 97 @ [0, 0, 1, 0, 1]
   \<and> Answer_marshal
       \<lparr>Answer.domainName = replicate 64 CHR ''a'', answerType = 1, answerClass = 1,
         TTL = 60, RDLENGTH = 0, data = []\<rparr>
     = Inr (64 # replicate 64 97 @ [0, 0, 1, 0, 1, 0, 0, 0, 60, 0, 0])"
proof -
  have h: "\<forall>l\<in>set [replicate 64 CHR ''a'']. l \<noteq> [] \<and> CHR ''.'' \<notin> set l"
    by simp
  show ?thesis
    using marshal_has_no_label_bound [OF h, of 1 1 60 0 "[]"]
    by (simp add: byte_of_char_a)
qed

lemma Split_replicate_a: "Split (replicate k CHR ''a'') CHR ''.'' = [replicate k CHR ''a'']"
  by (rule Split_nodot) simp

text \<open>
  The claim as stated fails on a name that is one label of 64 bytes: both encoders
  return bytes, with the length byte 64.
\<close>

theorem marshal_label64_counterexample:
  "Question_marshal
     \<lparr>Question.domainName = replicate 64 CHR ''a'', questionType = 1, questionClass = 1\<rparr>
   = 64 # replicate 64 97 @ [0, 0, 1, 0, 1]
   \<and> Answer_marshal
       \<lparr>Answer.domainName = replicate 64 CHR ''a'', answerType = 1, answerClass = 1,
         TTL = 60, RDLENGTH = 4, data = ''8.8.8.8''\<rparr>
   = Inr (64 # replicate 64 97 @ [0, 0, 1, 0, 1, 0, 0, 0, 60, 0, 4, 8, 8, 8, 8])"
  by (simp add: Question_marshal_def Answer_marshal_def Atoi_def Split_replicate_a
        byte_of_char_a)

section \<open>Resource record codec: properties\<close>

lemma marshalData_appends:
  "marshalData segs acc = Inr out \<Longrightarrow>
   \<exists>rd. out = acc @ rd \<and> length rd = length (filter (\<lambda>seg. seg \<noteq> []) segs)"
proof (induction segs arbitrary: acc)
  case Nil
  then show ?case by simp
next
  case (Cons seg segs)
  show ?case
  proof (cases "seg = []")
    case True
    then show ?thesis using Cons by simp
  next
    case False
    then obtain n where n: "Atoi seg = Some n"
      and r: "marshalData segs (acc @ [of_int n]) = Inr out"
      using Cons.prems by (auto split: option.splits)
    from Cons.IH [OF r] obtain rd where
      "out = (acc @ [of_int n]) @ rd" "length rd = length (filter (\<lambda>seg. seg \<noteq> []) segs)"
      by blast
    then have "out = acc @ (of_int n # rd) \<and>
               length (of_int n # rd :: byte list) = length (filter (\<lambda>seg. seg \<noteq> []) (seg # segs))"
      using False by simp
    then show ?thesis by blast
  qed
qed

text \<open>
  C3 (as amended). Whenever \<open>Answer.marshal\<close> returns, the two RDLENGTH bytes of its
  output (at offset \<open>n + 8\<close>, \<open>n\<close> the length of the encoded name with its
  terminator) are the big-endian value of the caller-supplied \<open>RDLENGTH\<close> field, not
  a recomputed length; the RDATA that follows them has one byte for each non-empty
  dot-separated segment of the data string. So the two agree exactly when the caller set
  \<open>RDLENGTH\<close> to that number.
\<close>

theorem Answer_marshal_RDLENGTH_from_field:
  assumes "Answer_marshal a = Inr out"
    and "n = length (marshalLabels (Split (Answer.domainName a) CHR ''.'') []) + 1"
  shows "Uint16 (take 2 (drop (n + 8) out)) = RDLENGTH a
         \<and> length (drop (n + 10) out)
             = length (filter (\<lambda>seg. seg \<noteq> []) (Split (data a) CHR ''.''))"
proof -
  let ?name = "marshalLabels (Split (Answer.domainName a) CHR ''.'') []"
  let ?fixed = "[0, ucast (drop_bit 8 (answerType a)), ucast (answerType a AND 0xFF),
                 ucast (drop_bit 8 (answerClass a)), ucast (answerClass a AND 0xFF),
                 ucast (drop_bit 24 (TTL a)), ucast (drop_bit 16 (TTL a) AND 0xFF),
                 ucast (drop_bit 8 (TTL a) AND 0xFF), ucast (TTL a AND 0xFF)] :: byte list"
  let ?len = "[ucast (drop_bit 8 (RDLENGTH a)), ucast (RDLENGTH a AND 0xFF)] :: byte list"
  have "marshalData (Split (data a) CHR ''.'') (?name @ ?fixed @ ?len) = Inr out"
    using assms(1) by (simp add: Answer_marshal_def Let_def)
  then obtain rd where out: "out = (?name @ ?fixed @ ?len) @ rd"
    and rd: "length rd = length (filter (\<lambda>seg. seg \<noteq> []) (Split (data a) CHR ''.''))"
    using marshalData_appends by blast
  have n8: "n + 8 = length (?name @ ?fixed)" using assms(2) by simp
  have n10: "n + 10 = length (?name @ ?fixed @ ?len)" using assms(2) by simp
  have "drop (n + 8) out = ?len @ rd"
    unfolding n8 out by simp
  then have "take 2 (drop (n + 8) out) = ?len" by simp
  then have a: "Uint16 (take 2 (drop (n + 8) out)) = RDLENGTH a"
    by (simp only: Uint16_bytes)
  have "drop (n + 10) out = rd"
    unfolding n10 out by simp
  then show ?thesis using a rd by simp
qed

theorem Answer_marshal_RDLENGTH_from_field_witness:
  "Answer_marshal
     \<lparr>Answer.domainName = ''codecrafters.io'', answerType = 1, answerClass = 1,
       TTL = 60, RDLENGTH = 4, data = ''8.8.8.8''\<rparr> = Inr codecrafters_answer
   \<and> Uint16 (take 2 (drop (17 + 8) codecrafters_answer)) = 4
   \<and> length (drop (17 + 10) codecrafters_answer) = 4"
proof -
  have h1: "Answer_marshal
     \<lparr>Answer.domainName = ''codecrafters.io'', answerType = 1, answerClass = 1,
       TTL = 60, RDLENGTH = 4, data = ''8.8.8.8''\<rparr> = Inr codecrafters_answer"
    by (simp add: Answer_marshal_def Atoi_def codecrafters_answer_def
          codecrafters_question_def byte_of_char_def)
  have h2: "17 = length (marshalLabels (Split (Answer.domainName
     \<lparr>Answer.domainName = ''codecrafters.io'', answerType = 1, answerClass = 1,
       TTL = 60, RDLENGTH = 4, data = ''8.8.8.8''\<rparr>) CHR ''.'') []) + 1"
    by simp
  show ?thesis
    using h1 Answer_marshal_RDLENGTH_from_field [OF h1 h2] by simp
qed

text \<open>
  The claim as stated fails on the record of the repository's test with \<open>RDLENGTH\<close>
  set to 0: the RDLENGTH bytes of the output are \<open>00 00\<close> and four RDATA bytes follow.
\<close>

theorem Answer_marshal_RDLENGTH_counterexample:
  "Answer_marshal
     \<lparr>Answer.domainName = ''codecrafters.io'', answerType = 1, answerClass = 1,
       TTL = 60, RDLENGTH = 0, data = ''8.8.8.8''\<rparr>
   = Inr (codecrafters_question @ [0, 0, 0, 60, 0, 0, 8, 8, 8, 8])
   \<and> Uint16 (take 2 (drop (17 + 8) (codecrafters_question @ [0, 0, 0, 60, 0, 0, 8, 8, 8, 8]))) = 0
   \<and> length (drop (17 + 10) (codecrafters_question @ [0, 0, 0, 60, 0, 0, 8, 8, 8, 8])) = 4"
  by (simp add: Answer_marshal_def Atoi_def codecrafters_question_def byte_of_char_def
        Uint16_def)

lemma marshalData_fails:
  "\<exists>seg\<in>set segs. seg \<noteq> [] \<and> Atoi seg = None \<Longrightarrow> marshalData segs acc = Inl CantConvert"
  by (induction segs arbitrary: acc) (auto split: option.splits)

lemma marshalData_succeeds:
  "\<forall>seg\<in>set segs. seg \<noteq> [] \<longrightarrow> Atoi seg \<noteq> None \<Longrightarrow> \<exists>out. marshalData segs acc = Inr out"
  by (induction segs arbitrary: acc) (auto split: option.splits)

text \<open>
  C6 (as amended). \<open>Answer.marshal\<close> panics ("cant convert") whenever some non-empty
  dot-separated segment of the data string is rejected by \<open>strconv.Atoi\<close>, and returns
  bytes whenever every non-empty segment parses as an integer from 0 to 255. Empty
  segments are skipped and never make it fail. (Nothing is said here about a segment
  that parses as an integer outside 0..255.)
\<close>

theorem Answer_marshal_panics_on_unparsable_segment:
  "((\<exists>seg\<in>set (Split (data a) CHR ''.''). seg \<noteq> [] \<and> Atoi seg = None)
      \<longrightarrow> Answer_marshal a = Inl CantConvert)
   \<and> ((\<forall>seg\<in>set (Split (data a) CHR ''.'').
          seg \<noteq> [] \<longrightarrow> (\<exists>v. Atoi seg = Some v \<and> 0 \<le> v \<and> v \<le> 255))
      \<longrightarrow> (\<exists>out. Answer_marshal a = Inr out))"
proof (intro conjI impI)
  assume "\<exists>seg\<in>set (Split (data a) CHR ''.''). seg \<noteq> [] \<and> Atoi seg = None"
  then show "Answer_marshal a = Inl CantConvert"
    unfolding Answer_marshal_def Let_def by (rule marshalData_fails)
next
  assume "\<forall>seg\<in>set (Split (data a) CHR ''.'').
            seg \<noteq> [] \<longrightarrow> (\<exists>v. Atoi seg = Some v \<and> 0 \<le> v \<and> v \<le> 255)"
  then have "\<forall>seg\<in>set (Split (data a) CHR ''.''). seg \<noteq> [] \<longrightarrow> Atoi seg \<noteq> None"
    by auto
  then show "\<exists>out. Answer_marshal a = Inr out"
    unfolding Answer_marshal_def Let_def by (rule marshalData_succeeds)
qed

theorem Answer_marshal_panics_on_unparsable_segment_witness:
  "Answer_marshal
     \<lparr>Answer.domainName = ''codecrafters.io'', answerType = 1, answerClass = 1,
       TTL = 60, RDLENGTH = 2, data = ''8.x''\<rparr> = Inl CantConvert
   \<and> (\<exists>out. Answer_marshal
        \<lparr>Answer.domainName = ''codecrafters.io'', answerType = 1, answerClass = 1,
          TTL = 60, RDLENGTH = 4, data = ''8.8.8.8''\<rparr> = Inr out)"
proof -
  have bad: "\<exists>seg\<in>set (Split (data
      \<lparr>Answer.domainName = ''codecrafters.io'', answerType = 1, answerClass = 1,
        TTL = 60, RDLENGTH = 2, data = ''8.x''\<rparr>) CHR ''.''). seg \<noteq> [] \<and> Atoi seg = None"
    by (simp add: Atoi_def)
  have good: "\<forall>seg\<in>set (Split (data
      \<lparr>Answer.domainName = ''codecrafters.io'', answerType = 1, answerClass = 1,
        TTL = 60, RDLENGTH = 4, data = ''8.8.8.8''\<rparr>) CHR ''.'').
      seg \<noteq> [] \<longrightarrow> (\<exists>v. Atoi seg = Some v \<and> 0 \<le> v \<and> v \<le> 255)"
    by (simp add: Atoi_def)
  show ?thesis
    using bad good
      Answer_marshal_panics_on_unparsable_segment [of
        "\<lparr>Answer.domainName = ''codecrafters.io'', answerType = 1, answerClass = 1,
          TTL = 60, RDLENGTH = 2, data = ''8.x''\<rparr>"]
      Answer_marshal_panics_on_unparsable_segment [of
        "\<lparr>Answer.domainName = ''codecrafters.io'', answerType = 1, answerClass = 1,
          TTL = 60, RDLENGTH = 4, data = ''8.8.8.8''\<rparr>"]
    by blast
qed

text \<open>
  The claim as stated fails on the data string \<open>8..8\<close>: its middle segment is empty,
  which does not parse as an integer, and the encoding succeeds, with two RDATA bytes.
\<close>

theorem Answer_marshal_empty_segment_counterexample:
  "Split ''8..8'' CHR ''.'' = [''8'', [], ''8'']
   \<and> Atoi [] = None
   \<and> Answer_marshal
       \<lparr>Answer.domainName = ''codecrafters.io'', answerType = 1, answerClass = 1,
         TTL = 60, RDLENGTH = 2, data = ''8..8''\<rparr>
     = Inr (codecrafters_question @ [0, 0, 0, 60, 0, 2, 8, 8])"
  by (simp add: Answer_marshal_def Atoi_def codecrafters_question_def byte_of_char_def)

text \<open>
  A segment that parses as an integer outside 0..255 is not rejected either: \<open>byte(n)\<close>
  keeps the low 8 bits, so \<open>256\<close> is encoded as the byte 0 and \<open>-1\<close> as 255.
\<close>

lemma marshalData_out_of_range_wraps:
  "marshalData (Split ''256.-1'' CHR ''.'') [] = Inr [0, 255]"
  by (simp add: Atoi_def)

end
